theory Spec2Isabelle
  imports Complex_Main "HOL-Library.Sublist"
begin

section \<open>Exceptions\<close>

text \<open>
  A Python exception is a value: every function that can raise returns \<open>error + 'a\<close>,
  with \<open>Inl\<close> for the exception. \<open>IndexError\<close> and \<open>TypeError\<close> are the two built-in
  exceptions that statements of \<^verbatim>\<open>huggingface_core.py\<close> raise themselves; \<open>Raised name\<close> is
  an exception of class \<open>name\<close> coming out of an external collaborator (the model, a
  library). \<open>InvalidStopSequence\<close>, \<open>BackendError\<close> and \<open>InvalidOptions\<close> are the error kinds
  the specification names; no statement of the source raises them.
\<close>

datatype error =
    IndexError
  | TypeError
  | Raised string
  | InvalidStopSequence
  | BackendError
  | InvalidOptions

section \<open>The tokenizer\<close>

text \<open>
  The tokenizer is an external capability; the source uses three of its entry points:
  \<^verbatim>\<open>tokenizer.encode(word, add_special_tokens=b)\<close>,
  \<^verbatim>\<open>tokenizer.decode(ids, skip_special_tokens=b)\<close> (\<open>b\<close> is \<open>False\<close> when the call does not
  pass it) and \<^verbatim>\<open>tokenizer(prompt, return_tensors='pt').input_ids\<close>, a batch of one row.
  Nothing is assumed about them: decoding need not be compositional.
\<close>

record tokenizer =
  encode :: "string \<Rightarrow> bool \<Rightarrow> int list"
  decode :: "int list \<Rightarrow> bool \<Rightarrow> string"
  input_ids :: "string \<Rightarrow> int list list"

section \<open>Python slices with a negated bound\<close>

text \<open>
  \<^verbatim>\<open>xs[:-i]\<close>: for \<open>i \<ge> 1\<close> the list without its last \<open>i\<close> elements (empty when \<open>i\<close> exceeds
  the length); for \<open>i = 0\<close> the bound is \<open>-0 = 0\<close> and the slice is \<^verbatim>\<open>xs[:0]\<close>, the empty list.
\<close>

definition slice_to_neg :: "'a list \<Rightarrow> nat \<Rightarrow> 'a list" where
  "slice_to_neg xs i = (if i = 0 then [] else take (length xs - i) xs)"


section \<open>KeywordsStoppingCriteria\<close>

subsection \<open>get_min_ids\<close>

text \<open>
  The first loop of \<^verbatim>\<open>get_min_ids\<close> (lines 27-33), over the indices still to visit:
  \<^verbatim>\<open>temp = ids[i:]\<close> is appended to \<^verbatim>\<open>effective\<close> while it decodes to the word, and the loop
  breaks at the first index where it does not.
\<close>

fun head_loop ::
  "tokenizer \<Rightarrow> string \<Rightarrow> int list \<Rightarrow> nat list \<Rightarrow> (string \<times> int list) list
    \<Rightarrow> (string \<times> int list) list" where
  "head_loop tok word ids [] effective = effective"
| "head_loop tok word ids (i # rest) effective =
     (let temp = drop i ids; text = decode tok temp False
      in if text = word then head_loop tok word ids rest (effective @ [(text, temp)])
         else effective)"

text \<open>The second loop (lines 34-40): the same with \<^verbatim>\<open>temp = ids[:-i]\<close>.\<close>

fun tail_loop ::
  "tokenizer \<Rightarrow> string \<Rightarrow> int list \<Rightarrow> nat list \<Rightarrow> (string \<times> int list) list
    \<Rightarrow> (string \<times> int list) list" where
  "tail_loop tok word ids [] effective = effective"
| "tail_loop tok word ids (i # rest) effective =
     (let temp = slice_to_neg ids i; text = decode tok temp False
      in if text = word then tail_loop tok word ids rest (effective @ [(text, temp)])
         else effective)"

text \<open>
  The list \<^verbatim>\<open>effective\<close> as it stands after both loops, before it is sorted. Both loops
  run over \<^verbatim>\<open>range(len(ids))\<close>.
\<close>

definition candidates :: "tokenizer \<Rightarrow> string \<Rightarrow> (string \<times> int list) list" where
  "candidates tok word =
     (let ids = encode tok word False;
          effective = head_loop tok word ids [0..<length ids] []
      in tail_loop tok word ids [0..<length ids] effective)"

text \<open>
  \<^verbatim>\<open>effective.sort(key=lambda x: len(x[1]))\<close> is a stable sort, as \<open>sort_key\<close> is;
  \<^verbatim>\<open>effective[0][1]\<close> raises \<open>IndexError\<close> on the empty list.
\<close>

definition get_min_ids :: "tokenizer \<Rightarrow> string \<Rightarrow> error + int list" where
  "get_min_ids tok word =
     (case sort_key (\<lambda>x. length (snd x)) (candidates tok word) of
        [] \<Rightarrow> Inl IndexError
      | c # _ \<Rightarrow> Inr (snd c))"

subsection \<open>Construction and the runtime check\<close>

record KeywordsStoppingCriteria =
  ksc_tokenizer :: tokenizer
  stopwords :: "string list"
  stop_ids :: "int list list"

text \<open>
  \<^verbatim>\<open>list(map(lambda x: self.get_min_ids(x), stop_words))\<close>: the first word whose derivation
  raises ends the construction.
\<close>

fun map_get_min_ids :: "tokenizer \<Rightarrow> string list \<Rightarrow> error + int list list" where
  "map_get_min_ids tok [] = Inr []"
| "map_get_min_ids tok (w # ws) =
     (case get_min_ids tok w of
        Inl e \<Rightarrow> Inl e
      | Inr c \<Rightarrow> (case map_get_min_ids tok ws of Inl e \<Rightarrow> Inl e | Inr cs \<Rightarrow> Inr (c # cs)))"

definition KeywordsStoppingCriteria_init ::
  "string list \<Rightarrow> tokenizer \<Rightarrow> error + KeywordsStoppingCriteria" where
  "KeywordsStoppingCriteria_init stop_words tok =
     (case map_get_min_ids tok stop_words of
        Inl e \<Rightarrow> Inl e
      | Inr cs \<Rightarrow> Inr \<lparr>ksc_tokenizer = tok, stopwords = stop_words, stop_ids = cs\<rparr>)"



section \<open>Example tokenizers\<close>

text \<open>
  A vocabulary of three pieces, decoded by concatenation: 1 is \<open>a\<close>, 2 is \<open>b\<close>, and 3 is
  an end marker without text that the encoder appends to every word.
\<close>

definition marker_tokenizer :: tokenizer where
  "marker_tokenizer =
     \<lparr>encode = (\<lambda>w special. map (\<lambda>c. if c = CHR ''a'' then 1 else 2) w @ [3]),
      decode = (\<lambda>ids skip.
        concat (map (\<lambda>i. if i = 1 then ''a'' else if i = 2 then ''b'' else '''') ids)),
      input_ids = (\<lambda>p. [map (\<lambda>c. if c = CHR ''a'' then 1 else 2) p])\<rparr>"

text \<open>
  A lossy vocabulary: \<open>a\<close> is piece 1, every other character is encoded as the unknown
  piece 0, which decodes to \<open>?\<close>.
\<close>

definition lossy_tokenizer :: tokenizer where
  "lossy_tokenizer =
     \<lparr>encode = (\<lambda>w special. map (\<lambda>c. if c = CHR ''a'' then 1 else 0) w),
      decode = (\<lambda>ids skip. map (\<lambda>i. if i = (1::int) then CHR ''a'' else CHR ''?'') ids),
      input_ids = (\<lambda>p. [map (\<lambda>c. if c = CHR ''a'' then 1 else 0) p])\<rparr>"

text \<open>
  A byte-level vocabulary with a context-sensitive decoder: pieces 1 and 2 are the two
  bytes of one blank character, piece 3 is \<open>ab\<close>; a byte without its partner renders as
  \<open>?\<close>, as does the unknown piece 0, and the decoder strips blanks at the start of the
  text. The encoder puts the blank in front of the word; it knows the word \<open>ab\<close> and
  encodes every other character as the unknown piece.
\<close>

fun render :: "int list \<Rightarrow> string" where
  "render [] = ''''"
| "render (i # ids) =
     (if i = 3 then ''ab'' @ render ids
      else if i = 1 \<and> ids \<noteq> [] \<and> hd ids = 2 then '' '' @ render (tl ids)
      else ''?'' @ render ids)"

definition bytes_encode :: "string \<Rightarrow> int list" where
  "bytes_encode w = [1, 2] @ (if w = ''ab'' then [3] else map (\<lambda>c. 0) w)"

definition bytes_tokenizer :: tokenizer where
  "bytes_tokenizer =
     \<lparr>encode = (\<lambda>w special. bytes_encode w),
      decode = (\<lambda>ids skip. dropWhile (\<lambda>c. c = CHR '' '') (render ids)),
      input_ids = (\<lambda>p. [bytes_encode p])\<rparr>"

section \<open>Python values, dictionaries and the store\<close>

text \<open>
  The values that travel through \<^verbatim>\<open>**kwargs\<close> and \<^verbatim>\<open>gen_config\<close>: \<^verbatim>\<open>None\<close>, booleans,
  numbers (an \<^verbatim>\<open>int\<close> or a \<^verbatim>\<open>float\<close>, read as the number it denotes), strings, and the two
  objects that \<^verbatim>\<open>_call\<close> stores under \<^verbatim>\<open>'stopping_criteria'\<close> and \<^verbatim>\<open>'streamer'\<close>.
\<close>

datatype pyval =
    PyNone
  | Flag bool
  | Num real
  | Str string
  | StoppingCriteriaList "KeywordsStoppingCriteria list"
  | TextIteratorStreamer

text \<open>Truth value of an object, as \<^verbatim>\<open>if stream:\<close> reads it.\<close>

fun truthy :: "pyval \<Rightarrow> bool" where
  "truthy PyNone = False"
| "truthy (Flag b) = b"
| "truthy (Num x) = (x \<noteq> 0)"
| "truthy (Str s) = (s \<noteq> [])"
| "truthy (StoppingCriteriaList cs) = (cs \<noteq> [])"
| "truthy TextIteratorStreamer = True"

text \<open>
  \<^verbatim>\<open>v > 0\<close>: defined on numbers and on booleans (\<^verbatim>\<open>True\<close> is 1, \<^verbatim>\<open>False\<close> is 0); on every
  other object the comparison with an \<^verbatim>\<open>int\<close> raises \<open>TypeError\<close>.
\<close>

fun gt_zero :: "pyval \<Rightarrow> error + bool" where
  "gt_zero (Num x) = Inr (x > 0)"
| "gt_zero (Flag b) = Inr b"
| "gt_zero _ = Inl TypeError"

type_synonym dict = "string \<rightharpoonup> pyval"

text \<open>
  Dictionaries are mutable objects: a variable holds a reference, and the store maps
  references to contents. \<open>next_ref\<close> is the first reference not yet allocated.
\<close>

record store =
  cells :: "nat \<Rightarrow> dict"
  next_ref :: nat

definition alloc :: "dict \<Rightarrow> store \<Rightarrow> nat \<times> store" where
  "alloc d s = (next_ref s, s\<lparr>cells := (cells s)(next_ref s := d), next_ref := Suc (next_ref s)\<rparr>)"

text \<open>\<^verbatim>\<open>d.copy()\<close>: a new dictionary with the same entries.\<close>

definition dict_copy :: "nat \<Rightarrow> store \<Rightarrow> nat \<times> store" where
  "dict_copy r s = alloc (cells s r) s"

text \<open>\<^verbatim>\<open>d[k] = v\<close>.\<close>

definition dict_set :: "nat \<Rightarrow> string \<Rightarrow> pyval \<Rightarrow> store \<Rightarrow> store" where
  "dict_set r k v s = s\<lparr>cells := (cells s)(r := (cells s r)(k \<mapsto> v))\<rparr>"

section \<open>HuggingfaceLLM\<close>

text \<open>
  The core holds the tokenizer and the model. \<open>model_generate tokens gen_config\<close> is
  \<^verbatim>\<open>self.core.model.generate(tokens, **gen_config)\<close>: it raises or returns a batch of id
  rows. \<open>model_stream tokens gen_config\<close> is the list of text increments that the
  \<^verbatim>\<open>TextIteratorStreamer\<close> of \<^verbatim>\<open>gen_config\<close> hands over, in order, while that call runs.
\<close>

record HuggingfaceCore =
  core_tokenizer :: tokenizer
  model_generate :: "int list list \<Rightarrow> dict \<Rightarrow> error + int list list"
  model_stream :: "int list list \<Rightarrow> dict \<Rightarrow> string list"

text \<open>
  Three functions that \<^verbatim>\<open>huggingface_core.py\<close> imports are not among the sources and are
  parameters of the model: \<^verbatim>\<open>get_stop_words(stop, tokenizer, add_newline_version,
  tokenizer_type)\<close> and \<^verbatim>\<open>textgen_iterator(text_generator, stop)\<close> of \<^verbatim>\<open>Models/Cores/utils.py\<close>,
  and \<^verbatim>\<open>enforce_stop_tokens(text, stop)\<close> of \<^verbatim>\<open>langchain.llms.utils\<close>. An iterator is
  represented by the list of the items it yields.
\<close>

record utils =
  get_stop_words :: "string list option \<Rightarrow> tokenizer \<Rightarrow> bool \<Rightarrow> string \<Rightarrow> string list"
  textgen_iterator :: "string list \<Rightarrow> string list \<Rightarrow> string list"
  enforce_stop_tokens :: "string \<Rightarrow> string list \<Rightarrow> string"

record HuggingfaceLLM =
  core :: HuggingfaceCore
  generation_config :: nat
  stop :: "string list"

text \<open>
  \<^verbatim>\<open>__init__\<close> (lines 98-127). The dictionary is built and stored under a fresh reference.
\<close>

definition HuggingfaceLLM_init ::
  "utils \<Rightarrow> HuggingfaceCore \<Rightarrow> real \<Rightarrow> int \<Rightarrow> real \<Rightarrow> int \<Rightarrow> real \<Rightarrow> string list option
    \<Rightarrow> bool \<Rightarrow> store \<Rightarrow> HuggingfaceLLM \<times> store" where
  "HuggingfaceLLM_init u c temperature max_new_tokens top_p top_k repetition_penalty
      stop_arg stop_newline_version s =
     (let stop_list = get_stop_words u stop_arg (core_tokenizer c) stop_newline_version
                        ''transformers'';
          gen_config =
            [''temperature'' \<mapsto> Num (if temperature \<noteq> 0 then temperature else 0.01),
             ''do_sample'' \<mapsto> Flag (if temperature = 0 then False else True),
             ''max_new_tokens'' \<mapsto> Num (of_int max_new_tokens),
             ''top_p'' \<mapsto> Num top_p,
             ''top_k'' \<mapsto> Num (of_int top_k),
             ''repetition_penalty'' \<mapsto> Num repetition_penalty];
          (r, s1) = alloc gen_config s
      in (\<lparr>core = c, generation_config = r, stop = stop_list\<rparr>, s1))"

text \<open>
  The loop over \<^verbatim>\<open>kwargs.items()\<close> (lines 156-165), writing into the dictionary at
  reference \<open>r\<close>. The result is the exception raised, if any, and the store.
\<close>

fun merge_kwargs :: "nat \<Rightarrow> (string \<times> pyval) list \<Rightarrow> store \<Rightarrow> error option \<times> store" where
  "merge_kwargs r [] s = (None, s)"
| "merge_kwargs r ((k, v) # rest) s =
     (if k = ''temperature'' then
        (case gt_zero v of
           Inl e \<Rightarrow> (Some e, s)
         | Inr pos \<Rightarrow>
             if pos
             then merge_kwargs r rest
                    (dict_set r ''do_sample'' (Flag True) (dict_set r ''temperature'' v s))
             else merge_kwargs r rest
                    (dict_set r ''do_sample'' (Flag False)
                       (dict_set r ''temperature'' (Num 0.01) s)))
      else if k \<in> set [''max_new_tokens'', ''top_p'', ''top_k'', ''repetition_penalty'']
      then merge_kwargs r rest (dict_set r k v s)
      else merge_kwargs r rest s)"

text \<open>
  Line 152 of \<^verbatim>\<open>_call\<close>, the stop list in force: the \<^verbatim>\<open>stop\<close> argument passed through
  \<^verbatim>\<open>get_stop_words\<close> when it is not \<^verbatim>\<open>None\<close>, the adapter's list otherwise.
\<close>

definition stop_in_force :: "utils \<Rightarrow> HuggingfaceLLM \<Rightarrow> string list option \<Rightarrow> string list" where
  "stop_in_force u self stop_arg =
     (case stop_arg of
        Some st \<Rightarrow> get_stop_words u (Some st) (core_tokenizer (core self)) False
                     ''transformers''
      | None \<Rightarrow> stop self)"

text \<open>
  Line 153, \<^verbatim>\<open>kwargs.get('stream', False)\<close>. \<^verbatim>\<open>kwargs\<close> is the list of the items of the
  keyword dictionary, in order; the keys of a dictionary are distinct.
\<close>

definition stream_of :: "(string \<times> pyval) list \<Rightarrow> pyval" where
  "stream_of kwargs = (case map_of kwargs ''stream'' of Some v \<Rightarrow> v | None \<Rightarrow> Flag False)"

text \<open>
  Lines 152-165 of \<^verbatim>\<open>_call\<close>: the stop list in force, the copy of the stored dictionary,
  the stopping criteria (whose construction raises when \<^verbatim>\<open>get_min_ids\<close> does) and the
  overrides. The result is the stop list and the reference of \<^verbatim>\<open>gen_config\<close>.
\<close>

definition call_options ::
  "utils \<Rightarrow> HuggingfaceLLM \<Rightarrow> string list option \<Rightarrow> (string \<times> pyval) list \<Rightarrow> store
    \<Rightarrow> (error + string list \<times> nat) \<times> store" where
  "call_options u self stop_arg kwargs s =
     (let stop_list = stop_in_force u self stop_arg;
          (gen_config, s1) = dict_copy (generation_config self) s
      in case KeywordsStoppingCriteria_init stop_list (core_tokenizer (core self)) of
           Inl e \<Rightarrow> (Inl e, s1)
         | Inr criteria \<Rightarrow>
             (case merge_kwargs gen_config kwargs
                     (dict_set gen_config ''stopping_criteria''
                        (StoppingCriteriaList [criteria]) s1) of
                (Some e, s2) \<Rightarrow> (Inl e, s2)
              | (None, s2) \<Rightarrow> (Inr (stop_list, gen_config), s2)))"

text \<open>\<^verbatim>\<open>text.removeprefix(prompt)\<close>.\<close>

definition removeprefix :: "string \<Rightarrow> string \<Rightarrow> string" where
  "removeprefix prompt text = (if prefix prompt text then drop (length prompt) text else text)"

text \<open>
  What \<^verbatim>\<open>_call\<close> returns: a string, or an iterator, given by the items it yields when it
  is consumed to its end.
\<close>

datatype call_result = Text string | Iterator "string list"

text \<open>
  \<^verbatim>\<open>_call\<close> (lines 129-201). In the streaming branch the generator \<^verbatim>\<open>generate()\<close> yields
  the increments of the streamer and then the empty string, and \<^verbatim>\<open>textgen_iterator\<close> wraps
  it; the worker thread and the queue of the streamer only hand the increments over in
  order. In the other branch an exception of \<^verbatim>\<open>model.generate\<close> is not caught, and
  \<^verbatim>\<open>output[0]\<close> raises \<open>IndexError\<close> on an empty batch.
\<close>

definition HuggingfaceLLM_call ::
  "utils \<Rightarrow> HuggingfaceLLM \<Rightarrow> string \<Rightarrow> string list option \<Rightarrow> (string \<times> pyval) list \<Rightarrow> store
    \<Rightarrow> (error + call_result) \<times> store" where
  "HuggingfaceLLM_call u self prompt stop_arg kwargs s =
     (let stream = stream_of kwargs;
          tok = core_tokenizer (core self)
      in case call_options u self stop_arg kwargs s of
           (Inl e, s1) \<Rightarrow> (Inl e, s1)
         | (Inr (stop_list, gen_config), s1) \<Rightarrow>
             if truthy stream then
               (let s2 = dict_set gen_config ''streamer'' TextIteratorStreamer s1;
                    increments = model_stream (core self) (input_ids tok prompt)
                                   (cells s2 gen_config)
                in (Inr (Iterator (textgen_iterator u (increments @ ['''']) stop_list)), s2))
             else
               (case model_generate (core self) (input_ids tok prompt) (cells s1 gen_config) of
                  Inl e \<Rightarrow> (Inl e, s1)
                | Inr [] \<Rightarrow> (Inl IndexError, s1)
                | Inr (row # _) \<Rightarrow>
                    (Inr (Text (enforce_stop_tokens u
                                  (removeprefix prompt (decode tok row True)) stop_list)),
                     s1)))"

section \<open>Truncation at stop strings\<close>

text \<open>
  Modelled from the spec: \<^verbatim>\<open>enforce_stop_tokens\<close> of \<^verbatim>\<open>langchain.llms.utils\<close> is not among the
  sources. Section 4.3 of the specification gives its effect on the non-streaming path:
  the complete text is cut at the first occurrence of any stop string, by the
  substring rule of section 4.2 (the text before the earliest-starting match; the whole
  text when no stop string occurs).
\<close>

fun truncate_text :: "string \<Rightarrow> string list \<Rightarrow> string" where
  "truncate_text [] stops = []"
| "truncate_text (c # cs) stops =
     (if \<exists>s\<in>set stops. prefix s (c # cs) then [] else c # truncate_text cs stops)"

text \<open>Some stop string occurs in the text as a substring.\<close>

fun contains_stop :: "string \<Rightarrow> string list \<Rightarrow> bool" where
  "contains_stop [] stops = ([] \<in> set stops)"
| "contains_stop (c # cs) stops =
     ((\<exists>s\<in>set stops. prefix s (c # cs)) \<or> contains_stop cs stops)"

text \<open>
  Modelled from the spec: \<^verbatim>\<open>textgen_iterator\<close> of \<^verbatim>\<open>Models/Cores/utils.py\<close> is not among the
  sources. Section 4.2 of the specification (Token-Stream Truncator): the increments
  are consumed one at a time and buffered; as soon as the buffered text contains a stop
  string, the part of the buffer before the earliest-starting match is yielded and the
  sequence ends; when the source is exhausted without a match, the whole buffer is the
  final content yielded. The specification fixes the content yielded in total, not how
  it is divided into items: here it is one item.
\<close>

fun truncate_from :: "string \<Rightarrow> string list \<Rightarrow> string list \<Rightarrow> string list" where
  "truncate_from buffer [] stops = [buffer]"
| "truncate_from buffer (inc # incs) stops =
     (if contains_stop (buffer @ inc) stops then [truncate_text (buffer @ inc) stops]
      else truncate_from (buffer @ inc) incs stops)"

definition truncate :: "string list \<Rightarrow> string list \<Rightarrow> string list" where
  "truncate increments stops = truncate_from [] increments stops"

section \<open>Example adapters\<close>

text \<open>
  Utilities that follow the specification; \<^verbatim>\<open>get_stop_words\<close> returns the list it is
  given.
\<close>

definition plain_utils :: utils where
  "plain_utils =
     \<lparr>get_stop_words = (\<lambda>stop_arg tok newline kind. case stop_arg of None \<Rightarrow> [] | Some st \<Rightarrow> st),
      textgen_iterator = truncate,
      enforce_stop_tokens = truncate_text\<rparr>"

text \<open>
  A backend with a fixed behaviour, over the vocabulary with the end marker: \<open>result\<close>
  is what \<^verbatim>\<open>model.generate\<close> does, \<open>increments\<close> what the streamer hands over.
\<close>

definition canned_core :: "error + int list list \<Rightarrow> string list \<Rightarrow> HuggingfaceCore" where
  "canned_core result increments =
     \<lparr>core_tokenizer = marker_tokenizer,
      model_generate = (\<lambda>tokens gen_config. result),
      model_stream = (\<lambda>tokens gen_config. increments)\<rparr>"

definition empty_store :: store where
  "empty_store = \<lparr>cells = (\<lambda>r. Map.empty), next_ref = 0\<rparr>"

text \<open>
  An adapter constructed in the empty store with default temperature 0.8 and the given
  stop list, and the store after the construction (the same for every core and stop
  list: it holds the dictionary of the defaults at reference 0).
\<close>

definition demo_llm :: "HuggingfaceCore \<Rightarrow> string list \<Rightarrow> HuggingfaceLLM" where
  "demo_llm c stops =
     fst (HuggingfaceLLM_init plain_utils c 0.8 2048 0.95 40 1.1 (Some stops) False empty_store)"

definition demo_store :: store where
  "demo_store =
     snd (HuggingfaceLLM_init plain_utils (canned_core (Inr []) []) 0.8 2048 0.95 40 1.1
            None False empty_store)"

section \<open>Properties of get_min_ids\<close>

lemma head_loop_takeWhile:
  "head_loop tok word ids js eff =
     eff @ map (\<lambda>i. (word, drop i ids))
             (takeWhile (\<lambda>i. decode tok (drop i ids) False = word) js)"
  by (induction js arbitrary: eff) (simp_all add: Let_def)

lemma tail_loop_takeWhile:
  "tail_loop tok word ids js eff =
     eff @ map (\<lambda>i. (word, slice_to_neg ids i))
             (takeWhile (\<lambda>i. decode tok (slice_to_neg ids i) False = word) js)"
  by (induction js arbitrary: eff) (simp_all add: Let_def)

lemma candidates_eq:
  "candidates tok word =
     map (\<lambda>i. (word, drop i (encode tok word False)))
       (takeWhile (\<lambda>i. decode tok (drop i (encode tok word False)) False = word)
          [0..<length (encode tok word False)]) @
     map (\<lambda>i. (word, slice_to_neg (encode tok word False) i))
       (takeWhile (\<lambda>i. decode tok (slice_to_neg (encode tok word False) i) False = word)
          [0..<length (encode tok word False)])"
  by (simp add: candidates_def Let_def head_loop_takeWhile tail_loop_takeWhile)

lemma candidate_decodes:
  assumes "c \<in> set (candidates tok word)"
  shows "fst c = word \<and> decode tok (snd c) False = word"
  using assms unfolding candidates_eq
  by (auto dest: set_takeWhileD)

lemma takeWhile_upt_mem:
  assumes "j < n" and "\<forall>i\<le>j. P i"
  shows "j \<in> set (takeWhile P [0..<n])"
proof -
  have split: "[0..<n] = [0..<Suc j] @ [Suc j..<n]"
    using assms(1) by (metis Suc_leI le0 upt_add_eq_append le_add_diff_inverse)
  have "\<forall>i\<in>set [0..<Suc j]. P i"
    using assms(2) by auto
  then have "takeWhile P [0..<n] = [0..<Suc j] @ takeWhile P [Suc j..<n]"
    unfolding split by (rule takeWhile_append2[OF ballE]) auto
  then show ?thesis by simp
qed

lemma head_trim_is_candidate:
  assumes "j < length (encode tok word False)"
    and "\<forall>i\<le>j. decode tok (drop i (encode tok word False)) False = word"
  shows "(word, drop j (encode tok word False)) \<in> set (candidates tok word)"
  using takeWhile_upt_mem[OF assms(1),
      of "\<lambda>i. decode tok (drop i (encode tok word False)) False = word"] assms(2)
  unfolding candidates_eq by auto

text \<open>
  The second loop starts at \<^verbatim>\<open>ids[:-0]\<close>, the empty list: unless the empty list decodes to
  the word, the loop breaks at once and adds nothing, and the candidates are those of
  the first loop.
\<close>

lemma tail_loop_adds_nothing:
  assumes "decode tok [] False \<noteq> word"
  shows "tail_loop tok word ids [0..<n] eff = eff"
proof (cases n)
  case 0
  then show ?thesis by simp
next
  case (Suc m)
  then have "[0..<n] = 0 # [1..<n]"
    by (simp add: upt_rec)
  then show ?thesis
    using assms by (simp add: slice_to_neg_def)
qed

lemma candidates_head_only:
  assumes "decode tok [] False \<noteq> word"
  shows "candidates tok word =
           head_loop tok word (encode tok word False) [0..<length (encode tok word False)] []"
  using assms by (simp add: candidates_def Let_def tail_loop_adds_nothing)

lemma sort_key_head:
  assumes "sort_key f xs = c # rest"
  shows "c \<in> set xs \<and> (\<forall>d\<in>set xs. f c \<le> f d)"
proof -
  have "set (sort_key f xs) = set xs" by simp
  moreover have "sorted (map f (sort_key f xs))" by (rule sorted_sort_key)
  ultimately show ?thesis unfolding assms by auto
qed

lemma get_min_ids_Inr:
  assumes "get_min_ids tok word = Inr r"
  shows "\<exists>c\<in>set (candidates tok word). snd c = r \<and>
           (\<forall>d\<in>set (candidates tok word). length r \<le> length (snd d))"
proof -
  obtain c rest where s: "sort_key (\<lambda>x. length (snd x)) (candidates tok word) = c # rest"
    and r: "r = snd c"
    using assms by (auto simp: get_min_ids_def split: list.splits)
  from sort_key_head[OF s] r show ?thesis by auto
qed

lemma get_min_ids_error:
  "get_min_ids tok word = Inl e \<Longrightarrow> e = IndexError \<and> candidates tok word = []"
  by (auto simp: get_min_ids_def split: list.splits dest: arg_cong[where f=length])


lemma marker_candidates: "candidates marker_tokenizer ''ab'' = [(''ab'', [1, 2, 3])]"
  by (simp add: candidates_def marker_tokenizer_def slice_to_neg_def Let_def)

lemma marker_min_ids: "get_min_ids marker_tokenizer ''ab'' = Inr [1, 2, 3]"
  by (simp add: get_min_ids_def marker_candidates)

lemma bytes_candidates: "candidates bytes_tokenizer ''ab'' = [(''ab'', [1, 2, 3])]"
  by (simp add: candidates_def bytes_tokenizer_def bytes_encode_def slice_to_neg_def Let_def)

lemma bytes_min_ids: "get_min_ids bytes_tokenizer ''ab'' = Inr [1, 2, 3]"
  by (simp add: get_min_ids_def bytes_candidates)

lemma lossy_candidates: "candidates lossy_tokenizer ''ab'' = []"
  by (simp add: candidates_def lossy_tokenizer_def slice_to_neg_def Let_def)

text \<open>
  C1 (as amended). When \<^verbatim>\<open>get_min_ids\<close> returns a sequence, the sequence decodes exactly
  to the stop string, it is one of the collected candidates, no collected candidate has
  fewer ids, and in particular it is no longer than any head trimming \<^verbatim>\<open>ids[j:]\<close> that is
  reached before the first head trimming that fails to decode to the stop string.
\<close>

theorem get_min_ids_shortest_candidate:
  assumes "get_min_ids tok word = Inr r"
  shows "decode tok r False = word
       \<and> r \<in> snd ` set (candidates tok word)
       \<and> (\<forall>c\<in>set (candidates tok word). length r \<le> length (snd c))
       \<and> (\<forall>j<length (encode tok word False).
            (\<forall>i\<le>j. decode tok (drop i (encode tok word False)) False = word)
            \<longrightarrow> length r \<le> length (drop j (encode tok word False)))"
proof -
  from get_min_ids_Inr[OF assms] obtain c where
    c: "c \<in> set (candidates tok word)" "snd c = r"
    and least: "\<forall>d\<in>set (candidates tok word). length r \<le> length (snd d)"
    by blast
  have "decode tok r False = word"
    using candidate_decodes[OF c(1)] c(2) by simp
  moreover have "r \<in> snd ` set (candidates tok word)"
    using c by force
  moreover have "length r \<le> length (drop j (encode tok word False))"
    if "j < length (encode tok word False)"
      and "\<forall>i\<le>j. decode tok (drop i (encode tok word False)) False = word" for j
    using least head_trim_is_candidate[OF that] by fastforce
  ultimately show ?thesis using least by blast
qed

theorem get_min_ids_shortest_candidate_witness:
  "get_min_ids marker_tokenizer ''ab'' = Inr [1, 2, 3]
   \<and> decode marker_tokenizer [1, 2, 3] False = ''ab''
   \<and> [1, 2, 3] \<in> snd ` set (candidates marker_tokenizer ''ab'')"
  using get_min_ids_shortest_candidate[OF marker_min_ids] marker_min_ids by simp

text \<open>
  The claim as stated fails: with the byte-level vocabulary the encoding of \<open>ab\<close> is
  \<open>[1, 2, 3]\<close>; the head trimming \<open>[2, 3]\<close> decodes to \<open>?ab\<close>, so the first loop breaks
  there, and the strictly shorter trimming \<open>[3]\<close>, which decodes to \<open>ab\<close>, is never
  reached. The sequence returned is the full encoding.
\<close>

theorem get_min_ids_not_minimal_counterexample:
  "get_min_ids bytes_tokenizer ''ab'' = Inr [1, 2, 3]
   \<and> drop 2 (encode bytes_tokenizer ''ab'' False) = [3]
   \<and> decode bytes_tokenizer [3] False = ''ab''
   \<and> length [3::int] < length [1, 2, 3::int]"
proof -
  have "drop 2 (encode bytes_tokenizer ''ab'' False) = [3]
      \<and> decode bytes_tokenizer [3] False = ''ab''"
    by (simp add: bytes_tokenizer_def bytes_encode_def)
  then show ?thesis using bytes_min_ids by simp
qed

text \<open>
  C3 (the code departs from it). With the end-marker vocabulary the encoding of \<open>ab\<close>
  is \<open>[1, 2, 3]\<close> and the tail trimming \<open>[1, 2]\<close> (one id removed at the end) decodes
  exactly to \<open>ab\<close>. The second loop starts with \<^verbatim>\<open>ids[:-0]\<close>, which is the empty list and
  not the full encoding; it decodes to the empty text, the loop breaks, and \<open>[1, 2]\<close>
  never enters the candidate list: the only candidate is the full encoding.
\<close>

theorem tail_trim_not_collected:
  "encode marker_tokenizer ''ab'' False = [1, 2, 3]
   \<and> take (length [1, 2, 3::int] - 1) [1, 2, 3::int] = [1, 2]
   \<and> decode marker_tokenizer [1, 2] False = ''ab''
   \<and> slice_to_neg [1, 2, 3::int] 0 = []
   \<and> candidates marker_tokenizer ''ab'' = [(''ab'', [1, 2, 3])]
   \<and> get_min_ids marker_tokenizer ''ab'' = Inr [1, 2, 3]"
proof -
  have "encode marker_tokenizer ''ab'' False = [1, 2, 3]
      \<and> decode marker_tokenizer [1, 2] False = ''ab''"
    by (simp add: marker_tokenizer_def)
  then show ?thesis
    using marker_candidates marker_min_ids by (simp add: slice_to_neg_def)
qed

text \<open>
  C4 (as amended). When no candidate is collected, \<^verbatim>\<open>effective[0]\<close> raises \<open>IndexError\<close>:
  \<^verbatim>\<open>get_min_ids\<close> does not return a sequence.
\<close>

theorem get_min_ids_empty_candidates:
  assumes "candidates tok word = []"
  shows "get_min_ids tok word = Inl IndexError"
  using assms by (simp add: get_min_ids_def)

theorem get_min_ids_empty_candidates_witness:
  "candidates lossy_tokenizer ''ab'' = []
   \<and> get_min_ids lossy_tokenizer ''ab'' = Inl IndexError"
  using get_min_ids_empty_candidates[OF lossy_candidates] lossy_candidates by simp

text \<open>
  The claim as stated fails: for the lossy vocabulary no candidate is collected for
  \<open>ab\<close>, and the error is not \<open>InvalidStopSequence\<close>.
\<close>

theorem get_min_ids_not_InvalidStopSequence_counterexample:
  "candidates lossy_tokenizer ''ab'' = []
   \<and> get_min_ids lossy_tokenizer ''ab'' \<noteq> Inl InvalidStopSequence"
  by (simp add: get_min_ids_def lossy_candidates)

section \<open>Properties of the runtime check\<close>






lemma init_error:
  assumes "KeywordsStoppingCriteria_init stop_words tok = Inl e"
  shows "e = IndexError"
proof -
  have "map_get_min_ids tok ws = Inl e \<Longrightarrow> e = IndexError" for ws
    by (induction ws) (auto split: sum.splits dest: get_min_ids_error)
  then show ?thesis
    using assms by (auto simp: KeywordsStoppingCriteria_init_def split: sum.splits)
qed





section \<open>Properties of the option merge\<close>

lemma merge_kwargs_other_cells:
  "merge_kwargs r kw s = (res, s') \<Longrightarrow>
     next_ref s' = next_ref s \<and> (\<forall>r'. r' \<noteq> r \<longrightarrow> cells s' r' = cells s r')"
proof (induction r kw s rule: merge_kwargs.induct)
  case (1 r s)
  then show ?case by simp
next
  case (2 r k v rest s)
  then show ?case
    by (auto simp: dict_set_def split: sum.splits if_splits)
qed

lemma merge_kwargs_untouched:
  "merge_kwargs r kw s = (res, s') \<Longrightarrow>
     (k \<in> set [''temperature'', ''do_sample''] \<longrightarrow> ''temperature'' \<notin> fst ` set kw) \<Longrightarrow>
     (k \<in> set [''max_new_tokens'', ''top_p'', ''top_k'', ''repetition_penalty'']
        \<longrightarrow> k \<notin> fst ` set kw) \<Longrightarrow>
     cells s' r k = cells s r k"
proof (induction r kw s rule: merge_kwargs.induct)
  case (1 r s)
  then show ?case by simp
next
  case (2 r k0 v rest s)
  show ?case
  proof (cases "k0 = ''temperature''")
    case True
    with "2.prems" have k: "k \<noteq> ''temperature''" "k \<noteq> ''do_sample''"
      by auto
    show ?thesis
    proof (cases "gt_zero v")
      case (Inl e)
      with True "2.prems" show ?thesis by simp
    next
      case (Inr pos)
      show ?thesis
      proof (cases pos)
        case True
        with \<open>k0 = ''temperature''\<close> Inr "2.prems" "2.IH"(1)[of pos] k
        show ?thesis by (simp add: dict_set_def)
      next
        case False
        with \<open>k0 = ''temperature''\<close> Inr "2.prems" "2.IH"(2)[of pos] k
        show ?thesis by (simp add: dict_set_def)
      qed
    qed
  next
    case False
    show ?thesis
    proof (cases "k0 \<in> set [''max_new_tokens'', ''top_p'', ''top_k'', ''repetition_penalty'']")
      case True
      then have "k \<noteq> k0"
        using "2.prems"(3) by auto
      with True False "2.prems" "2.IH"(3) show ?thesis
        by (simp add: dict_set_def)
    next
      case notin: False
      with False "2.prems" "2.IH"(4) show ?thesis
        by simp
    qed
  qed
qed

lemma merge_kwargs_plain_key:
  "merge_kwargs r kw s = (None, s') \<Longrightarrow> distinct (map fst kw) \<Longrightarrow> (k, v) \<in> set kw \<Longrightarrow>
     k \<in> set [''max_new_tokens'', ''top_p'', ''top_k'', ''repetition_penalty''] \<Longrightarrow>
     cells s' r k = Some v"
proof (induction r kw s rule: merge_kwargs.induct)
  case (1 r s)
  then show ?case by simp
next
  case (2 r k0 v0 rest s)
  show ?case
  proof (cases "(k, v) = (k0, v0)")
    case True
    then have k0: "k0 \<noteq> ''temperature''" "k0 = k" "v0 = v"
      using "2.prems"(4) by auto
    have fresh: "k \<notin> fst ` set rest"
      using "2.prems"(2) k0 by auto
    have run: "merge_kwargs r rest (dict_set r k v s) = (None, s')"
      using "2.prems"(1,4) k0 by auto
    have "cells s' r k = cells (dict_set r k v s) r k"
      using merge_kwargs_untouched[OF run, of k] fresh "2.prems"(4) by auto
    then show ?thesis by (simp add: dict_set_def)
  next
    case False
    then have mem: "(k, v) \<in> set rest"
      using "2.prems"(3) by auto
    have d: "distinct (map fst rest)"
      using "2.prems"(2) by simp
    show ?thesis
    proof (cases "k0 = ''temperature''")
      case True
      show ?thesis
      proof (cases "gt_zero v0")
        case (Inl e)
        with True "2.prems"(1) show ?thesis by simp
      next
        case (Inr pos)
        show ?thesis
        proof (cases pos)
          case True
          with \<open>k0 = ''temperature''\<close> Inr "2.prems" "2.IH"(1)[of pos] mem d
          show ?thesis by simp
        next
          case False
          with \<open>k0 = ''temperature''\<close> Inr "2.prems" "2.IH"(2)[of pos] mem d
          show ?thesis by simp
        qed
      qed
    next
      case nt: False
      show ?thesis
      proof (cases "k0 \<in> set [''max_new_tokens'', ''top_p'', ''top_k'', ''repetition_penalty'']")
        case True
        with nt "2.prems" "2.IH"(3) mem d show ?thesis by simp
      next
        case False
        with nt "2.prems" "2.IH"(4) mem d show ?thesis by simp
      qed
    qed
  qed
qed

lemma merge_kwargs_temperature:
  "merge_kwargs r kw s = (None, s') \<Longrightarrow> distinct (map fst kw) \<Longrightarrow>
     (''temperature'', v) \<in> set kw \<Longrightarrow>
     \<exists>pos. gt_zero v = Inr pos
        \<and> cells s' r ''temperature'' = Some (if pos then v else Num 0.01)
        \<and> cells s' r ''do_sample'' = Some (Flag pos)"
proof (induction r kw s rule: merge_kwargs.induct)
  case (1 r s)
  then show ?case by simp
next
  case (2 r k0 v0 rest s)
  have d: "distinct (map fst rest)"
    using "2.prems"(2) by simp
  show ?case
  proof (cases "k0 = ''temperature''")
    case True
    then have v0: "v0 = v" and fresh: "''temperature'' \<notin> fst ` set rest"
      using "2.prems"(2,3) by (auto simp: image_iff)
    from True "2.prems"(1) obtain pos where pos: "gt_zero v = Inr pos"
      unfolding v0 by (cases "gt_zero v") auto
    define s1 where "s1 = (if pos
        then dict_set r ''do_sample'' (Flag True) (dict_set r ''temperature'' v s)
        else dict_set r ''do_sample'' (Flag False) (dict_set r ''temperature'' (Num 0.01) s))"
    have run: "merge_kwargs r rest s1 = (None, s')"
      using True "2.prems"(1) pos unfolding v0 s1_def by (cases pos) auto
    have t: "cells s' r ''temperature'' = cells s1 r ''temperature''"
      using merge_kwargs_untouched[OF run, of "''temperature''"] fresh by simp
    have ds: "cells s' r ''do_sample'' = cells s1 r ''do_sample''"
      using merge_kwargs_untouched[OF run, of "''do_sample''"] fresh by simp
    show ?thesis
      using pos t ds unfolding s1_def by (cases pos) (auto simp: dict_set_def)
  next
    case nt: False
    then have mem: "(''temperature'', v) \<in> set rest"
      using "2.prems"(3) by auto
    show ?thesis
    proof (cases "k0 \<in> set [''max_new_tokens'', ''top_p'', ''top_k'', ''repetition_penalty'']")
      case True
      with nt "2.prems" "2.IH"(3) mem d show ?thesis by simp
    next
      case False
      with nt "2.prems" "2.IH"(4) mem d show ?thesis by simp
    qed
  qed
qed

lemma merge_kwargs_error:
  "merge_kwargs r kw s = (Some e, s') \<Longrightarrow>
     e = TypeError \<and> (\<exists>v. (''temperature'', v) \<in> set kw \<and> gt_zero v = Inl TypeError)"
proof (induction r kw s rule: merge_kwargs.induct)
  case (1 r s)
  then show ?case by simp
next
  case (2 r k v rest s)
  then show ?case
    by (cases v) (auto split: if_splits)
qed

section \<open>Properties of the call\<close>

lemma pair_of_fst: "fst p = a \<Longrightarrow> \<exists>b. p = (a, b)"
  by (cases p) simp

lemma call_options_cases:
  assumes "call_options u self stop_arg kwargs s = (res, s1)"
  shows "next_ref s1 = Suc (next_ref s)
       \<and> (\<forall>r'. r' \<noteq> next_ref s \<longrightarrow> cells s1 r' = cells s r')
       \<and> (res = Inl IndexError \<or> res = Inl TypeError
            \<or> res = Inr (stop_in_force u self stop_arg, next_ref s))"
proof (cases "KeywordsStoppingCriteria_init (stop_in_force u self stop_arg)
                (core_tokenizer (core self))")
  case (Inl e)
  then have "e = IndexError" by (rule init_error)
  with Inl assms show ?thesis
    by (auto simp: call_options_def dict_copy_def alloc_def Let_def)
next
  case (Inr criteria)
  define s0 where "s0 = dict_set (next_ref s) ''stopping_criteria''
      (StoppingCriteriaList [criteria]) (snd (dict_copy (generation_config self) s))"
  obtain res' s2 where m: "merge_kwargs (next_ref s) kwargs s0 = (res', s2)"
    by (cases "merge_kwargs (next_ref s) kwargs s0") auto
  have s0: "next_ref s0 = Suc (next_ref s)"
    "\<forall>r'. r' \<noteq> next_ref s \<longrightarrow> cells s0 r' = cells s r'"
    by (simp_all add: s0_def dict_set_def dict_copy_def alloc_def)
  have eq: "call_options u self stop_arg kwargs s =
      (case res' of Some e \<Rightarrow> Inl e | None \<Rightarrow> Inr (stop_in_force u self stop_arg, next_ref s),
       s2)"
    using Inr m
    by (simp add: call_options_def dict_copy_def alloc_def Let_def s0_def split: option.splits)
  have "res' = None \<or> res' = Some TypeError"
    using merge_kwargs_error[of "next_ref s" kwargs s0 _ s2] m by (cases res') auto
  with eq assms merge_kwargs_other_cells[OF m] s0 show ?thesis
    by auto
qed

lemma call_options_Inr:
  assumes "call_options u self stop_arg kwargs s = (Inr (stop_list, r), s1)"
  shows "stop_list = stop_in_force u self stop_arg \<and> r = next_ref s
       \<and> (\<exists>criteria. merge_kwargs r kwargs
              (dict_set r ''stopping_criteria'' (StoppingCriteriaList [criteria])
                 (snd (dict_copy (generation_config self) s))) = (None, s1))"
  using assms
  by (auto simp: call_options_def dict_copy_def alloc_def Let_def
      split: sum.splits option.splits prod.splits)

lemma call_options_succeeds:
  assumes "KeywordsStoppingCriteria_init (stop_in_force u self stop_arg)
             (core_tokenizer (core self)) = Inr criteria"
    and "\<forall>v. (''temperature'', v) \<in> set kwargs \<longrightarrow> gt_zero v \<noteq> Inl TypeError"
  shows "fst (call_options u self stop_arg kwargs s) =
           Inr (stop_in_force u self stop_arg, next_ref s)"
proof -
  define s0 where "s0 = dict_set (next_ref s) ''stopping_criteria''
      (StoppingCriteriaList [criteria]) (snd (dict_copy (generation_config self) s))"
  obtain res' s2 where m: "merge_kwargs (next_ref s) kwargs s0 = (res', s2)"
    by (cases "merge_kwargs (next_ref s) kwargs s0") auto
  have "res' = None"
    using merge_kwargs_error[of "next_ref s" kwargs s0 _ s2] m assms(2) by (cases res') auto
  with m assms(1) show ?thesis
    by (simp add: call_options_def dict_copy_def alloc_def Let_def s0_def)
qed

lemma call_options_default:
  assumes "call_options u self stop_arg kwargs s = (Inr (stop_list, r), s1)"
    and "k \<noteq> ''stopping_criteria''"
    and "k \<in> set [''temperature'', ''do_sample''] \<longrightarrow> ''temperature'' \<notin> fst ` set kwargs"
    and "k \<in> set [''max_new_tokens'', ''top_p'', ''top_k'', ''repetition_penalty'']
           \<longrightarrow> k \<notin> fst ` set kwargs"
  shows "cells s1 r k = cells s (generation_config self) k"
proof -
  from call_options_Inr[OF assms(1)] obtain criteria where
    r: "r = next_ref s" and
    m: "merge_kwargs r kwargs
              (dict_set r ''stopping_criteria'' (StoppingCriteriaList [criteria])
                 (snd (dict_copy (generation_config self) s))) = (None, s1)"
    by blast
  from merge_kwargs_untouched[OF m assms(3,4)] assms(2) r show ?thesis
    by (simp add: dict_set_def dict_copy_def alloc_def)
qed

lemma call_frame:
  assumes "HuggingfaceLLM_call u self prompt stop_arg kwargs s = (res, s2)"
    and "r' < next_ref s"
  shows "cells s2 r' = cells s r'"
proof -
  obtain res1 s1 where o: "call_options u self stop_arg kwargs s = (res1, s1)"
    by (cases "call_options u self stop_arg kwargs s") auto
  from call_options_cases[OF o] have
    frame: "cells s1 r' = cells s r'" and
    res1: "res1 = Inl IndexError \<or> res1 = Inl TypeError
            \<or> res1 = Inr (stop_in_force u self stop_arg, next_ref s)"
    using assms(2) by auto
  have "s2 = s1 \<or> s2 = dict_set (next_ref s) ''streamer'' TextIteratorStreamer s1"
    using assms(1) o res1
    by (auto simp: HuggingfaceLLM_call_def Let_def split: if_splits sum.splits list.splits)
  then show ?thesis
    using frame assms(2) by (auto simp: dict_set_def)
qed



lemma demo_llm_fields: "demo_llm c stops = \<lparr>core = c, generation_config = 0, stop = stops\<rparr>"
  by (simp add: demo_llm_def HuggingfaceLLM_init_def alloc_def plain_utils_def
      empty_store_def Let_def)

lemma demo_init:
  "HuggingfaceLLM_init plain_utils c 0.8 2048 0.95 40 1.1 (Some stops) False empty_store =
     (demo_llm c stops, demo_store)"
  by (simp add: demo_llm_def demo_store_def HuggingfaceLLM_init_def alloc_def Let_def)

lemma demo_store_next: "next_ref demo_store = Suc 0"
  by (simp add: demo_store_def HuggingfaceLLM_init_def alloc_def empty_store_def Let_def)

lemma demo_store_temperature:
  "cells demo_store 0 ''temperature'' = Some (Num 0.8)
   \<and> cells demo_store 0 ''do_sample'' = Some (Flag True)
   \<and> cells demo_store 0 ''top_k'' = Some (Num 40)"
  by (simp add: demo_store_def HuggingfaceLLM_init_def alloc_def empty_store_def Let_def)

lemma marker_min_ids_aa: "get_min_ids marker_tokenizer ''aa'' = Inr [1, 1, 3]"
  by (simp add: get_min_ids_def candidates_def marker_tokenizer_def slice_to_neg_def Let_def)


lemma marker_init_aa:
  "KeywordsStoppingCriteria_init [''aa''] marker_tokenizer =
     Inr \<lparr>ksc_tokenizer = marker_tokenizer, stopwords = [''aa''], stop_ids = [[1, 1, 3]]\<rparr>"
  by (simp add: KeywordsStoppingCriteria_init_def marker_min_ids_aa)


text \<open>
  The options of a call on the example adapter, whatever the backend does: the stop
  list of the adapter is in force and \<^verbatim>\<open>gen_config\<close> is the dictionary at reference 1.
\<close>

lemma demo_call_options:
  assumes "KeywordsStoppingCriteria_init stops marker_tokenizer = Inr criteria"
    and "\<forall>v. (''temperature'', v) \<in> set kwargs \<longrightarrow> gt_zero v \<noteq> Inl TypeError"
  shows "fst (call_options plain_utils (demo_llm (canned_core result incs) stops) None kwargs
           demo_store) = Inr (stops, Suc 0)"
proof -
  have "KeywordsStoppingCriteria_init
          (stop_in_force plain_utils (demo_llm (canned_core result incs) stops) None)
          (core_tokenizer (core (demo_llm (canned_core result incs) stops))) = Inr criteria"
    using assms(1) by (simp add: stop_in_force_def demo_llm_fields canned_core_def)
  from call_options_succeeds[OF this assms(2), of demo_store] show ?thesis
    by (simp add: stop_in_force_def demo_store_next demo_llm_fields)
qed









text \<open>
  C7. Temperature 0 forces deterministic decoding. An adapter constructed with
  temperature 0 stores temperature 0.01 and \<^verbatim>\<open>do_sample = False\<close>; and whatever the stored
  defaults are, a call with the override \<^verbatim>\<open>temperature=0\<close> that gets as far as the
  generation uses options with temperature 0.01 and \<^verbatim>\<open>do_sample = False\<close>.
\<close>

theorem temperature_zero_is_deterministic:
  "(let (self0, s0) = HuggingfaceLLM_init u c 0 max_new_tokens top_p top_k
                        repetition_penalty stop_arg0 newline s
    in cells s0 (generation_config self0) ''temperature'' = Some (Num 0.01)
     \<and> cells s0 (generation_config self0) ''do_sample'' = Some (Flag False))
   \<and> (distinct (map fst kwargs) \<and> (''temperature'', Num 0) \<in> set kwargs
      \<and> call_options u self stop_arg kwargs s' = (Inr (stop_list, r), s1)
      \<longrightarrow> cells s1 r ''temperature'' = Some (Num 0.01)
        \<and> cells s1 r ''do_sample'' = Some (Flag False))"
proof -
  have init: "(let (self0, s0) = HuggingfaceLLM_init u c 0 max_new_tokens top_p top_k
                        repetition_penalty stop_arg0 newline s
    in cells s0 (generation_config self0) ''temperature'' = Some (Num 0.01)
     \<and> cells s0 (generation_config self0) ''do_sample'' = Some (Flag False))"
    by (simp add: HuggingfaceLLM_init_def alloc_def Let_def)
  have call: "cells s1 r ''temperature'' = Some (Num 0.01)
        \<and> cells s1 r ''do_sample'' = Some (Flag False)"
    if d: "distinct (map fst kwargs)" and t: "(''temperature'', Num 0) \<in> set kwargs"
      and o: "call_options u self stop_arg kwargs s' = (Inr (stop_list, r), s1)"
  proof -
    from call_options_Inr[OF o] obtain criteria where
      m: "merge_kwargs r kwargs
              (dict_set r ''stopping_criteria'' (StoppingCriteriaList [criteria])
                 (snd (dict_copy (generation_config self) s'))) = (None, s1)"
      by blast
    from merge_kwargs_temperature[OF m d t] show ?thesis by auto
  qed
  from init call show ?thesis by blast
qed

theorem temperature_zero_is_deterministic_witness:
  "cells demo_store 0 ''temperature'' = Some (Num 0.8)
   \<and> distinct (map fst [(''temperature'', Num 0)])
   \<and> fst (call_options plain_utils (demo_llm (canned_core (Inr []) []) [''aa'']) None
            [(''temperature'', Num 0)] demo_store) = Inr ([''aa''], Suc 0)
   \<and> cells (snd (call_options plain_utils (demo_llm (canned_core (Inr []) []) [''aa'']) None
                   [(''temperature'', Num 0)] demo_store)) (Suc 0) ''temperature''
       = Some (Num 0.01)
   \<and> cells (snd (call_options plain_utils (demo_llm (canned_core (Inr []) []) [''aa'']) None
                   [(''temperature'', Num 0)] demo_store)) (Suc 0) ''do_sample''
       = Some (Flag False)"
proof -
  let ?llm = "demo_llm (canned_core (Inr []) []) [''aa'']"
  have f: "fst (call_options plain_utils ?llm None [(''temperature'', Num 0)] demo_store)
             = Inr ([''aa''], Suc 0)"
    by (rule demo_call_options[OF marker_init_aa]) simp
  from pair_of_fst[OF f] obtain s1 where
    o: "call_options plain_utils ?llm None [(''temperature'', Num 0)] demo_store
          = (Inr ([''aa''], Suc 0), s1)"
    by blast
  have d: "distinct (map fst [(''temperature'', Num 0)])"
    by simp
  have t: "(''temperature'', Num 0) \<in> set [(''temperature'', Num 0)]"
    by simp
  from temperature_zero_is_deterministic[THEN conjunct2, rule_format,
      OF conjI[OF d conjI[OF t o]]]
  have "cells s1 (Suc 0) ''temperature'' = Some (Num 0.01)
      \<and> cells s1 (Suc 0) ''do_sample'' = Some (Flag False)" .
  with o d demo_store_temperature show ?thesis
    by simp
qed

text \<open>
  C8. In a call whose keyword items have distinct keys and that gets as far as the
  generation, the options used (the dictionary \<^verbatim>\<open>gen_config\<close>, at reference \<open>r\<close>) hold,
  for each of \<^verbatim>\<open>max_new_tokens\<close>, \<^verbatim>\<open>top_p\<close>, \<^verbatim>\<open>top_k\<close> and \<^verbatim>\<open>repetition_penalty\<close> that is
  overridden, the override; for an overridden temperature, the override when it is
  positive and 0.01 otherwise; and for each field that is not overridden, the stored
  default. Whatever the call does (return or raise, stream or not), the dictionary
  stored in the adapter is afterwards what it was before.
\<close>

theorem call_overrides_and_stored_defaults:
  assumes "generation_config self < next_ref s"
    and "distinct (map fst kwargs)"
    and "call_options u self stop_arg kwargs s = (Inr (stop_list, r), s1)"
    and "HuggingfaceLLM_call u self prompt stop_arg kwargs s = (res, s2)"
  shows "(\<forall>k v. (k, v) \<in> set kwargs
              \<and> k \<in> set [''max_new_tokens'', ''top_p'', ''top_k'', ''repetition_penalty'']
            \<longrightarrow> cells s1 r k = Some v)
       \<and> (\<forall>v. (''temperature'', v) \<in> set kwargs
            \<longrightarrow> cells s1 r ''temperature'' = Some (if gt_zero v = Inr True then v else Num 0.01))
       \<and> (\<forall>k. k \<in> set [''temperature'', ''max_new_tokens'', ''top_p'', ''top_k'',
                         ''repetition_penalty'']
              \<and> k \<notin> fst ` set kwargs
            \<longrightarrow> cells s1 r k = cells s (generation_config self) k)
       \<and> r \<noteq> generation_config self
       \<and> cells s2 (generation_config self) = cells s (generation_config self)"
proof -
  from call_options_Inr[OF assms(3)] obtain criteria where
    r: "r = next_ref s" and
    m: "merge_kwargs r kwargs
              (dict_set r ''stopping_criteria'' (StoppingCriteriaList [criteria])
                 (snd (dict_copy (generation_config self) s))) = (None, s1)"
    by blast
  have plain: "cells s1 r k = Some v"
    if "(k, v) \<in> set kwargs"
      "k \<in> set [''max_new_tokens'', ''top_p'', ''top_k'', ''repetition_penalty'']" for k v
    by (rule merge_kwargs_plain_key[OF m assms(2) that])
  have temp: "cells s1 r ''temperature'' = Some (if gt_zero v = Inr True then v else Num 0.01)"
    if "(''temperature'', v) \<in> set kwargs" for v
    using merge_kwargs_temperature[OF m assms(2) that] by auto
  have dflt: "cells s1 r k = cells s (generation_config self) k"
    if "k \<in> set [''temperature'', ''max_new_tokens'', ''top_p'', ''top_k'',
                  ''repetition_penalty'']" "k \<notin> fst ` set kwargs" for k
    using call_options_default[OF assms(3), of k] that by auto
  have frame: "cells s2 (generation_config self) = cells s (generation_config self)"
    by (rule call_frame[OF assms(4,1)])
  from plain temp dflt frame r assms(1) show ?thesis
    by (intro conjI allI impI) auto
qed

theorem call_overrides_and_stored_defaults_witness:
  "generation_config (demo_llm (canned_core (Inr [[2, 1]]) []) [''aa'']) < next_ref demo_store
   \<and> distinct (map fst [(''top_k'', Num 5), (''temperature'', Num 0.5)])
   \<and> fst (call_options plain_utils (demo_llm (canned_core (Inr [[2, 1]]) []) [''aa'']) None
            [(''top_k'', Num 5), (''temperature'', Num 0.5)] demo_store)
       = Inr ([''aa''], Suc 0)
   \<and> cells (snd (call_options plain_utils (demo_llm (canned_core (Inr [[2, 1]]) []) [''aa''])
                   None [(''top_k'', Num 5), (''temperature'', Num 0.5)] demo_store))
       (Suc 0) ''top_k'' = Some (Num 5)
   \<and> cells (snd (call_options plain_utils (demo_llm (canned_core (Inr [[2, 1]]) []) [''aa''])
                   None [(''top_k'', Num 5), (''temperature'', Num 0.5)] demo_store))
       (Suc 0) ''temperature'' = Some (Num 0.5)
   \<and> cells (snd (call_options plain_utils (demo_llm (canned_core (Inr [[2, 1]]) []) [''aa''])
                   None [(''top_k'', Num 5), (''temperature'', Num 0.5)] demo_store))
       (Suc 0) ''top_p'' = cells demo_store 0 ''top_p''
   \<and> cells (snd (HuggingfaceLLM_call plain_utils
                   (demo_llm (canned_core (Inr [[2, 1]]) []) [''aa'']) ''b'' None
                   [(''top_k'', Num 5), (''temperature'', Num 0.5)] demo_store)) 0 ''top_k''
       = Some (Num 40)"
proof -
  let ?llm = "demo_llm (canned_core (Inr [[2, 1]]) []) [''aa'']"
  let ?kw = "[(''top_k'', Num 5), (''temperature'', Num 0.5)]"
  have f: "fst (call_options plain_utils ?llm None ?kw demo_store) = Inr ([''aa''], Suc 0)"
    by (rule demo_call_options[OF marker_init_aa]) auto
  from pair_of_fst[OF f] obtain s1 where
    o: "call_options plain_utils ?llm None ?kw demo_store = (Inr ([''aa''], Suc 0), s1)"
    by blast
  obtain res s2 where
    c: "HuggingfaceLLM_call plain_utils ?llm ''b'' None ?kw demo_store = (res, s2)"
    by (cases "HuggingfaceLLM_call plain_utils ?llm ''b'' None ?kw demo_store") blast
  have wf: "generation_config ?llm < next_ref demo_store"
    by (simp add: demo_llm_fields demo_store_next)
  have d: "distinct (map fst ?kw)"
    by simp
  note main = call_overrides_and_stored_defaults[OF wf d o c]
  from main[THEN conjunct1, rule_format, of "''top_k''" "Num 5"]
  have a: "cells s1 (Suc 0) ''top_k'' = Some (Num 5)"
    by simp
  from main[THEN conjunct2, THEN conjunct1, rule_format, of "Num 0.5"]
  have b: "cells s1 (Suc 0) ''temperature'' = Some (Num 0.5)"
    by simp
  from main[THEN conjunct2, THEN conjunct2, THEN conjunct1, rule_format, of "''top_p''"]
  have e: "cells s1 (Suc 0) ''top_p'' = cells demo_store 0 ''top_p''"
    by (simp add: demo_llm_fields)
  from main[THEN conjunct2, THEN conjunct2, THEN conjunct2, THEN conjunct2]
  have g: "cells s2 0 = cells demo_store 0"
    by (simp add: demo_llm_fields)
  from wf d o c a b e g demo_store_temperature show ?thesis
    by simp
qed

text \<open>
  C10. A per-call temperature override that is a number \<open>v\<close> is never rejected: the
  options are built whenever the stopping criteria can be built, and no
  \<open>InvalidOptions\<close> (nor any other error for the value) is raised. For \<open>v \<le> 0\<close>, negative
  values included, the options hold temperature 0.01 and \<^verbatim>\<open>do_sample = False\<close>; for
  \<open>v > 0\<close> they hold temperature \<open>v\<close> and \<^verbatim>\<open>do_sample = True\<close>.
\<close>

theorem temperature_override_never_rejected:
  assumes "distinct (map fst kwargs)"
    and "(''temperature'', Num v) \<in> set kwargs"
    and "call_options u self stop_arg kwargs s = (res, s1)"
  shows "res \<noteq> Inl InvalidOptions \<and> res \<noteq> Inl TypeError
       \<and> (\<forall>criteria. KeywordsStoppingCriteria_init (stop_in_force u self stop_arg)
                        (core_tokenizer (core self)) = Inr criteria
            \<longrightarrow> res = Inr (stop_in_force u self stop_arg, next_ref s))
       \<and> (\<forall>stop_list r. res = Inr (stop_list, r) \<longrightarrow>
            (v \<le> 0 \<longrightarrow> cells s1 r ''temperature'' = Some (Num 0.01)
                      \<and> cells s1 r ''do_sample'' = Some (Flag False))
          \<and> (0 < v \<longrightarrow> cells s1 r ''temperature'' = Some (Num v)
                      \<and> cells s1 r ''do_sample'' = Some (Flag True)))"
proof -
  have numeric: "\<forall>w. (''temperature'', w) \<in> set kwargs \<longrightarrow> gt_zero w \<noteq> Inl TypeError"
  proof (intro allI impI)
    fix w assume "(''temperature'', w) \<in> set kwargs"
    with assms(1,2) have "w = Num v"
      by (meson eq_key_imp_eq_value)
    then show "gt_zero w \<noteq> Inl TypeError" by simp
  qed
  have ok: "res = Inr (stop_in_force u self stop_arg, next_ref s)"
    if "KeywordsStoppingCriteria_init (stop_in_force u self stop_arg)
          (core_tokenizer (core self)) = Inr criteria" for criteria
    using call_options_succeeds[OF that numeric, of s] assms(3) by simp
  have no_type_error: "res \<noteq> Inl TypeError"
  proof
    assume te: "res = Inl TypeError"
    show False
    proof (cases "KeywordsStoppingCriteria_init (stop_in_force u self stop_arg)
                    (core_tokenizer (core self))")
      case (Inl e)
      then have "e = IndexError" by (rule init_error)
      with Inl assms(3) te show False
        by (auto simp: call_options_def dict_copy_def alloc_def Let_def)
    next
      case (Inr criteria)
      from ok[OF this] te show False by simp
    qed
  qed
  have vals: "(v \<le> 0 \<longrightarrow> cells s1 r ''temperature'' = Some (Num 0.01)
                      \<and> cells s1 r ''do_sample'' = Some (Flag False))
          \<and> (0 < v \<longrightarrow> cells s1 r ''temperature'' = Some (Num v)
                      \<and> cells s1 r ''do_sample'' = Some (Flag True))"
    if "res = Inr (stop_list, r)" for stop_list r
  proof -
    from call_options_Inr[OF assms(3)[unfolded that]] obtain criteria where
      m: "merge_kwargs r kwargs
              (dict_set r ''stopping_criteria'' (StoppingCriteriaList [criteria])
                 (snd (dict_copy (generation_config self) s))) = (None, s1)"
      by blast
    from merge_kwargs_temperature[OF m assms(1,2)] show ?thesis
      by auto
  qed
  from call_options_cases[OF assms(3)] no_type_error ok vals show ?thesis
    by (intro conjI allI impI) auto
qed

theorem temperature_override_never_rejected_witness:
  "distinct (map fst [(''temperature'', Num (- 1))])
   \<and> fst (call_options plain_utils (demo_llm (canned_core (Inr []) []) [''aa'']) None
            [(''temperature'', Num (- 1))] demo_store) = Inr ([''aa''], Suc 0)
   \<and> cells (snd (call_options plain_utils (demo_llm (canned_core (Inr []) []) [''aa'']) None
                   [(''temperature'', Num (- 1))] demo_store)) (Suc 0) ''temperature''
       = Some (Num 0.01)
   \<and> cells (snd (call_options plain_utils (demo_llm (canned_core (Inr []) []) [''aa'']) None
                   [(''temperature'', Num (- 1))] demo_store)) (Suc 0) ''do_sample''
       = Some (Flag False)"
proof -
  let ?llm = "demo_llm (canned_core (Inr []) []) [''aa'']"
  have f: "fst (call_options plain_utils ?llm None [(''temperature'', Num (- 1))] demo_store)
             = Inr ([''aa''], Suc 0)"
    by (rule demo_call_options[OF marker_init_aa]) simp
  from pair_of_fst[OF f] obtain s1 where
    o: "call_options plain_utils ?llm None [(''temperature'', Num (- 1))] demo_store
          = (Inr ([''aa''], Suc 0), s1)"
    by blast
  have d: "distinct (map fst [(''temperature'', Num (- 1))])"
    by simp
  have t: "(''temperature'', Num (- 1)) \<in> set [(''temperature'', Num (- 1))]"
    by simp
  from temperature_override_never_rejected[OF d t o, THEN conjunct2, THEN conjunct2,
      THEN conjunct2, rule_format, OF refl]
  have "cells s1 (Suc 0) ''temperature'' = Some (Num 0.01)
      \<and> cells s1 (Suc 0) ''do_sample'' = Some (Flag False)"
    by simp
  with o d show ?thesis
    by simp
qed

section \<open>Streaming against blocking\<close>












end
